theory Spec2Isabelle
  imports Main
begin

section \<open>JavaScript values as the client sees them\<close>

text \<open>
  The client in \<^verbatim>\<open>src/index.ts\<close> types every response as \<^verbatim>\<open>any\<close>, so the model keeps the
  dynamic values of JavaScript that a parsed JSON body can hold, together with the value
  \<^verbatim>\<open>undefined\<close> that reading a missing property produces. JSON numbers are kept as integers
  (slots, counts and error codes are integers in every documented response); only their
  truthiness is ever inspected. An object is the association list of its own properties.
\<close>

datatype jsval =
    JUndefined
  | JNull
  | JBool bool
  | JNum int
  | JStr string
  | JArr "jsval list"
  | JObj "(string \<times> jsval) list"

text \<open>
  What can leave a function abruptly: a \<^verbatim>\<open>TypeError\<close> of the runtime, the rejection of
  \<^verbatim>\<open>axios.post\<close> (network failure, timeout, non-2xx status), and the
  \<^verbatim>\<open>new Error(response.data.error.message)\<close> of \<^verbatim>\<open>searchTransactions\<close>, which carries the value
  its message was built from.
\<close>

datatype js_error =
    TypeError
  | AxiosError string
  | Error jsval

text \<open>The truthiness test of \<^verbatim>\<open>if (response.data.error)\<close>.\<close>

fun truthy :: "jsval \<Rightarrow> bool" where
  "truthy JUndefined = False"
| "truthy JNull = False"
| "truthy (JBool b) = b"
| "truthy (JNum n) = (n \<noteq> 0)"
| "truthy (JStr s) = (s \<noteq> [])"
| "truthy (JArr xs) = True"
| "truthy (JObj kvs) = True"

text \<open>
  Property read \<^verbatim>\<open>v.k\<close>, for the property names the client reads (\<^verbatim>\<open>error\<close>, \<^verbatim>\<open>message\<close>,
  \<^verbatim>\<open>result\<close>, \<^verbatim>\<open>data\<close>, \<^verbatim>\<open>paginationToken\<close>): a \<^verbatim>\<open>TypeError\<close> on \<^verbatim>\<open>undefined\<close> and \<^verbatim>\<open>null\<close>,
  the stored value on an object that has the property, \<^verbatim>\<open>undefined\<close> everywhere else.
\<close>

fun getp :: "jsval \<Rightarrow> string \<Rightarrow> js_error + jsval" where
  "getp JUndefined k = Inl TypeError"
| "getp JNull k = Inl TypeError"
| "getp (JObj kvs) k = Inr (case map_of kvs k of None \<Rightarrow> JUndefined | Some v \<Rightarrow> v)"
| "getp (JBool b) k = Inr JUndefined"
| "getp (JNum n) k = Inr JUndefined"
| "getp (JStr s) k = Inr JUndefined"
| "getp (JArr xs) k = Inr JUndefined"

text \<open>
  The spread \<^verbatim>\<open>...v\<close> in an argument list: the elements of an array, the characters of a
  string, and a \<^verbatim>\<open>TypeError\<close> for every value that is not iterable.
\<close>

fun spread :: "jsval \<Rightarrow> js_error + jsval list" where
  "spread (JArr xs) = Inr xs"
| "spread (JStr s) = Inr (map (\<lambda>c. JStr [c]) s)"
| "spread JUndefined = Inl TypeError"
| "spread JNull = Inl TypeError"
| "spread (JBool b) = Inl TypeError"
| "spread (JNum n) = Inl TypeError"
| "spread (JObj kvs) = Inl TypeError"

section \<open>Request types (\<^verbatim>\<open>src/types/search-transactions-req.ts\<close>)\<close>

datatype TransactionDetails = Signatures | Full

datatype SortOrder = ASC | DESC

text \<open>
  \<^verbatim>\<open>SearchParams\<close>: every field is optional. The field \<^verbatim>\<open>sort\<close> is named \<open>sort_p\<close> here.
  \<^verbatim>\<open>paginationToken\<close> is a \<open>jsval\<close>, with \<open>JUndefined\<close> for an absent field: the pagination
  loop stores in it whatever value the previous response held, and \<^verbatim>\<open>null\<close> on its first
  request.
\<close>

record SearchParams =
  accountInclude :: "string list option"
  accountExclude :: "string list option"
  accountRequired :: "string list option"
  fromBlock :: "int option"
  toBlock :: "int option"
  vote :: "bool option"
  failed :: "bool option"
  sort_p :: "SortOrder option"
  paginationToken :: jsval
  limit :: "int option"
  transactionDetails :: "TransactionDetails option"

text \<open>\<^verbatim>\<open>SearchTransactionsRpcRequest\<close>; \<^verbatim>\<open>id\<close> and \<^verbatim>\<open>method\<close> are named \<open>id_rpc\<close> and \<open>method_rpc\<close>.\<close>

record SearchTransactionsRpcRequest =
  jsonrpc :: string
  id_rpc :: nat
  method_rpc :: string
  params :: SearchParams

section \<open>The network\<close>

text \<open>
  What \<^verbatim>\<open>await axios.post(RPC_URL, requestBody, ...)\<close> gives back: the promise rejects, or it
  resolves to a response whose \<^verbatim>\<open>data\<close> is the parsed body.
\<close>

datatype reply = Rejected string | Resolved jsval

text \<open>
  The remote endpoint is a deterministic function of the requests it has received so
  far, the last one being the request it answers. The list of requests posted so far is
  the state that the client's functions pass along; it is the observable network effect
  of a run.
\<close>

type_synonym server = "SearchTransactionsRpcRequest list \<Rightarrow> reply"

section \<open>\<^verbatim>\<open>searchTransactions\<close> (\<^verbatim>\<open>src/index.ts\<close>)\<close>

text \<open>
  The \<^verbatim>\<open>catch\<close> block logs and rethrows, so every exception of the \<^verbatim>\<open>try\<close> block leaves the
  function unchanged: the rejection of the post, the \<^verbatim>\<open>TypeError\<close> of reading \<^verbatim>\<open>.error\<close> of a
  \<^verbatim>\<open>null\<close> body, and the \<^verbatim>\<open>Error\<close> thrown for a truthy \<^verbatim>\<open>error\<close> member. Otherwise the
  function returns \<^verbatim>\<open>response.data.result\<close>, whatever it is.
\<close>

definition searchTransactions ::
  "server \<Rightarrow> SearchTransactionsRpcRequest list \<Rightarrow> SearchTransactionsRpcRequest
     \<Rightarrow> (js_error + jsval) \<times> SearchTransactionsRpcRequest list" where
  "searchTransactions srv hist requestBody =
     (let hist' = hist @ [requestBody] in
      case srv hist' of
        Rejected msg \<Rightarrow> (Inl (AxiosError msg), hist')
      | Resolved body \<Rightarrow>
          (case getp body ''error'' of
             Inl e \<Rightarrow> (Inl e, hist')
           | Inr err \<Rightarrow>
               if truthy err then
                 (case getp err ''message'' of
                    Inl e \<Rightarrow> (Inl e, hist')
                  | Inr m \<Rightarrow> (Inl (Error m), hist'))
               else (getp body ''result'', hist')))"

section \<open>\<^verbatim>\<open>fetchAllTransactionsWithPagination\<close> (\<^verbatim>\<open>src/index.ts\<close>, example 5)\<close>

text \<open>The request body built in each iteration of the loop.\<close>

definition requestBody_of :: "nat \<Rightarrow> jsval \<Rightarrow> SearchTransactionsRpcRequest" where
  "requestBody_of pageCount token =
     \<lparr> jsonrpc = ''2.0'',
       id_rpc = pageCount,
       method_rpc = ''searchTransactions'',
       params = \<lparr> accountInclude = Some [''EPjFWdd5AufqSSqeM2qN1xzybapC8G4wEGGkZwyTDt1v''],
                  accountExclude = None,
                  accountRequired = None,
                  fromBlock = Some 394940000,
                  toBlock = Some 394940500,
                  vote = None,
                  failed = None,
                  sort_p = None,
                  paginationToken = token,
                  limit = Some 100,
                  transactionDetails = None \<rparr> \<rparr>"

text \<open>
  How a run of the function ends: the requests posted, the contents of the local array
  \<^verbatim>\<open>allTransactions\<close> and the value of \<^verbatim>\<open>pageCount\<close> at that moment, and the exception that
  left the function (\<open>None\<close> when it reached its final \<^verbatim>\<open>Completed!\<close> log line).
\<close>

record run =
  sent :: "SearchTransactionsRpcRequest list"
  fetched :: "jsval list"
  pages :: nat
  thrown :: "js_error option"

text \<open>
  The \<^verbatim>\<open>do ... while (paginationToken !== null)\<close> loop, entered with the values of the three
  local variables (the local variable \<^verbatim>\<open>paginationToken\<close> is named \<open>token\<close>, the record field
  keeping the name). One iteration increments \<^verbatim>\<open>pageCount\<close>, posts the request, appends
  \<^verbatim>\<open>...result.data\<close>, stores \<^verbatim>\<open>result.paginationToken\<close>, and leaves the loop by \<^verbatim>\<open>break\<close> when
  \<^verbatim>\<open>pageCount >= 3\<close>.
\<close>

function pagination_loop ::
  "server \<Rightarrow> SearchTransactionsRpcRequest list \<Rightarrow> jsval list \<Rightarrow> jsval \<Rightarrow> nat \<Rightarrow> run" where
  "pagination_loop srv hist allTransactions token pageCount =
     (let pageCount' = pageCount + 1 in
      case searchTransactions srv hist (requestBody_of pageCount' token) of
        (Inl e, hist') \<Rightarrow>
          \<lparr> sent = hist', fetched = allTransactions, pages = pageCount', thrown = Some e \<rparr>
      | (Inr result, hist') \<Rightarrow>
          (case getp result ''data'' of
             Inl e \<Rightarrow>
               \<lparr> sent = hist', fetched = allTransactions, pages = pageCount', thrown = Some e \<rparr>
           | Inr d \<Rightarrow>
               (case spread d of
                  Inl e \<Rightarrow>
                    \<lparr> sent = hist', fetched = allTransactions, pages = pageCount',
                      thrown = Some e \<rparr>
                | Inr xs \<Rightarrow>
                    (case getp result ''paginationToken'' of
                       Inl e \<Rightarrow>
                         \<lparr> sent = hist', fetched = allTransactions @ xs, pages = pageCount',
                           thrown = Some e \<rparr>
                     | Inr token' \<Rightarrow>
                         if pageCount' \<ge> 3 then
                           \<lparr> sent = hist', fetched = allTransactions @ xs, pages = pageCount',
                             thrown = None \<rparr>
                         else if token' \<noteq> JNull then
                           pagination_loop srv hist' (allTransactions @ xs) token'
                             pageCount'
                         else
                           \<lparr> sent = hist', fetched = allTransactions @ xs, pages = pageCount',
                             thrown = None \<rparr>))))"
  by pat_completeness auto
termination
  by (relation "measure (\<lambda>(srv, hist, allTransactions, token, pageCount). 3 - pageCount)")
     auto

definition fetchAllTransactionsWithPagination :: "server \<Rightarrow> run" where
  "fetchAllTransactionsWithPagination srv = pagination_loop srv [] [] JNull 0"

section \<open>Mock servers for paginated sessions\<close>

text \<open>
  A page as the API documents it: the records of \<^verbatim>\<open>result.data\<close> and the value of
  \<^verbatim>\<open>result.paginationToken\<close> (a string, or \<^verbatim>\<open>null\<close> on the last page).
\<close>

record page =
  records :: "jsval list"
  nextCursor :: jsval

definition page_reply :: "page \<Rightarrow> reply" where
  "page_reply p =
     Resolved (JObj [(''jsonrpc'', JStr ''2.0''),
                     (''result'', JObj [(''data'', JArr (records p)),
                                        (''paginationToken'', nextCursor p)])])"

text \<open>The documented error response, with its \<^verbatim>\<open>code\<close> and \<^verbatim>\<open>message\<close>.\<close>

definition error_reply :: "int \<Rightarrow> string \<Rightarrow> reply" where
  "error_reply code message =
     Resolved (JObj [(''jsonrpc'', JStr ''2.0''),
                     (''error'', JObj [(''code'', JNum code), (''message'', JStr message)])])"

text \<open>
  A server that plays a fixed trace: the \<open>k\<close>-th request is answered by the \<open>k\<close>-th reply of
  the trace, and a request past the end of the trace finds no server.
\<close>

definition mock_server :: "reply list \<Rightarrow> server" where
  "mock_server replies hist =
     (if hist \<noteq> [] \<and> length hist \<le> length replies then replies ! (length hist - 1)
      else Rejected ''ECONNREFUSED'')"

text \<open>
  A finite trace of pages that ends the session: every page but the last has a non-null
  next cursor, and the last one has \<^verbatim>\<open>null\<close>.
\<close>

definition exhausting :: "page list \<Rightarrow> bool" where
  "exhausting ps \<longleftrightarrow>
     ps \<noteq> [] \<and> (\<forall>p \<in> set (butlast ps). nextCursor p \<noteq> JNull) \<and> nextCursor (last ps) = JNull"

text \<open>
  The value of \<^verbatim>\<open>result.paginationToken\<close> in a reply, when the reply has a \<^verbatim>\<open>result\<close> whose
  properties can be read.
\<close>

definition returned_token :: "reply \<Rightarrow> jsval option" where
  "returned_token r =
     (case r of
        Rejected msg \<Rightarrow> None
      | Resolved body \<Rightarrow>
          (case getp body ''result'' of
             Inl e \<Rightarrow> None
           | Inr result \<Rightarrow>
               (case getp result ''paginationToken'' of
                  Inl e \<Rightarrow> None
                | Inr t \<Rightarrow> Some t)))"

text \<open>The reply that a run received to its \<open>k\<close>-th request (counted from 0).\<close>

definition reply_to :: "server \<Rightarrow> run \<Rightarrow> nat \<Rightarrow> reply" where
  "reply_to srv r k = srv (take (Suc k) (sent r))"

text \<open>
  The reply that the loop takes for a page: its \<^verbatim>\<open>error\<close> member is falsy, \<^verbatim>\<open>result.data\<close> can
  be spread and \<^verbatim>\<open>result.paginationToken\<close> can be read. It gives the records that the loop
  appends and the token that it stores.
\<close>

definition page_of :: "reply \<Rightarrow> (jsval list \<times> jsval) option" where
  "page_of r =
     (case r of
        Rejected msg \<Rightarrow> None
      | Resolved body \<Rightarrow>
          (case getp body ''error'' of
             Inl e \<Rightarrow> None
           | Inr err \<Rightarrow>
               if truthy err then None
               else
                 (case getp body ''result'' of
                    Inl e \<Rightarrow> None
                  | Inr result \<Rightarrow>
                      (case getp result ''data'' of
                         Inl e \<Rightarrow> None
                       | Inr d \<Rightarrow>
                           (case spread d of
                              Inl e \<Rightarrow> None
                            | Inr xs \<Rightarrow>
                                (case getp result ''paginationToken'' of
                                   Inl e \<Rightarrow> None
                                 | Inr t \<Rightarrow> Some (xs, t)))))))"

section \<open>The query engine of the specification\<close>

text \<open>
  The repository holds examples only: the validation of a filter, the defaults and the
  default block window are applied by the remote API and appear in the sources as
  documentation alone (the comments of \<^verbatim>\<open>SearchParams\<close>, \<^verbatim>\<open>docs/FULL_TRANSACTIONS.md\<close>,
  \<^verbatim>\<open>docs/API.md\<close>). The definitions of this section follow the specification, and the
  documentation where it says the same.
\<close>

text \<open>
  Modelled from the spec: the \<^verbatim>\<open>ValidationError\<close> taxonomy of its error handling design,
  which the sources do not declare (they declare the wire type \<^verbatim>\<open>RpcError\<close> only).
\<close>

datatype ValidationError =
    UnpairedBlockRange
  | RangeInverted
  | LimitExceeded
  | InconsistentFilterAcrossPages

text \<open>
  Modelled from the spec: the default of an absent \<^verbatim>\<open>transactionDetails\<close>, which no function
  of the sources computes. Signatures is the default detail level.
\<close>

definition effectiveDetailLevel :: "SearchParams \<Rightarrow> TransactionDetails" where
  "effectiveDetailLevel spec =
     (case transactionDetails spec of None \<Rightarrow> Signatures | Some d \<Rightarrow> d)"

text \<open>
  Modelled from the spec: the cap of \<^verbatim>\<open>limit\<close>, which no function of the sources computes.
  Signatures caps \<^verbatim>\<open>limit\<close> at 1000, Full caps it at 100.
\<close>

fun limitCap :: "TransactionDetails \<Rightarrow> int" where
  "limitCap Signatures = 1000"
| "limitCap Full = 100"

text \<open>
  Modelled from the spec: the default of an absent \<^verbatim>\<open>limit\<close>, which no function of the sources
  computes: 1000 for Signatures, 100 for Full, the cap of the detail level.
\<close>

definition effectiveLimit :: "SearchParams \<Rightarrow> int" where
  "effectiveLimit spec =
     (case limit spec of None \<Rightarrow> limitCap (effectiveDetailLevel spec) | Some n \<Rightarrow> n)"

text \<open>
  Modelled from the spec: the default of an absent \<^verbatim>\<open>sort\<close>, which no function of the sources
  computes. DESC is the default for the default-window computation (so do the comments of
  \<^verbatim>\<open>SearchParams\<close> say; \<^verbatim>\<open>docs/BASIC_SEARCH.md\<close> and \<^verbatim>\<open>docs/API.md\<close> name ASC).
\<close>

definition effectiveSort :: "SearchParams \<Rightarrow> SortOrder" where
  "effectiveSort spec = (case sort_p spec of None \<Rightarrow> DESC | Some ord \<Rightarrow> ord)"

text \<open>
  Modelled from the spec: \<^verbatim>\<open>validate\<close>, which the sources do not contain. It fails with
  \<open>UnpairedBlockRange\<close> if exactly one of \<^verbatim>\<open>fromBlock\<close>/\<^verbatim>\<open>toBlock\<close> is set, with
  \<open>RangeInverted\<close> if both are set and \<^verbatim>\<open>toBlock < fromBlock\<close>, with \<open>LimitExceeded\<close> if
  \<^verbatim>\<open>limit\<close> exceeds the cap of the active detail level; the checks are made in the order
  in which the specification lists them, and an accepted spec is returned as it is.
\<close>

definition validate :: "SearchParams \<Rightarrow> ValidationError + SearchParams" where
  "validate spec =
     (if (fromBlock spec = None) \<noteq> (toBlock spec = None) then Inl UnpairedBlockRange
      else if (case (fromBlock spec, toBlock spec) of
                 (Some f, Some t) \<Rightarrow> t < f
               | _ \<Rightarrow> False) then Inl RangeInverted
      else if (case limit spec of
                 Some n \<Rightarrow> n > limitCap (effectiveDetailLevel spec)
               | None \<Rightarrow> False) then Inl LimitExceeded
      else Inr spec)"

text \<open>
  Modelled from the spec: \<^verbatim>\<open>Cursor\<close>, the pair \<open>(slot, transactionIndex)\<close> that a pagination
  token encodes; the sources handle the token as a string only.
\<close>

record Cursor =
  slot :: int
  transactionIndex :: int

text \<open>
  Modelled from the spec: the two slots of the remote index that the decision table of the
  default window refers to, \<open>latestKnownSlot\<close> and \<open>firstIndexedSlot\<close>.
\<close>

record IndexedSlots =
  latestKnownSlot :: int
  firstIndexedSlot :: int

text \<open>
  Modelled from the spec: \<^verbatim>\<open>resolveDefaultWindow(spec, currentCursor)\<close>, evaluated by the
  remote API and absent from the sources. As \<^verbatim>\<open>docs/FULL_TRANSACTIONS.md\<close> words the table, a
  slot acts as the reference point (the cursor's slot when there is a cursor, else the
  latest known slot for DESC and the first indexed slot for ASC), and the window is the
  5000 slots below it for DESC and above it for ASC.
\<close>

definition resolveDefaultWindow ::
  "IndexedSlots \<Rightarrow> SearchParams \<Rightarrow> Cursor option \<Rightarrow> int \<times> int" where
  "resolveDefaultWindow idx spec currentCursor =
     (let anchor = (case currentCursor of
                      Some c \<Rightarrow> slot c
                    | None \<Rightarrow> (case effectiveSort spec of
                                 DESC \<Rightarrow> latestKnownSlot idx
                               | ASC \<Rightarrow> firstIndexedSlot idx))
      in case effectiveSort spec of
           DESC \<Rightarrow> (anchor - 5000, anchor)
         | ASC \<Rightarrow> (anchor, anchor + 5000))"

text \<open>
  Modelled from the spec: the block window of one request. A spec that fails validation
  has none; explicit bounds are the window; \<^verbatim>\<open>resolveDefaultWindow\<close> is invoked only when
  both bounds are absent.
\<close>

definition effectiveWindow ::
  "IndexedSlots \<Rightarrow> SearchParams \<Rightarrow> Cursor option \<Rightarrow> ValidationError + int \<times> int" where
  "effectiveWindow idx spec currentCursor =
     (case validate spec of
        Inl e \<Rightarrow> Inl e
      | Inr spec' \<Rightarrow>
          (case (fromBlock spec', toBlock spec') of
             (None, None) \<Rightarrow> Inr (resolveDefaultWindow idx spec' currentCursor)
           | (Some f, Some t) \<Rightarrow> Inr (f, t)
           | _ \<Rightarrow> Inl UnpairedBlockRange))"

text \<open>
  Modelled from the spec: the errors of the engine, a validation error found before the
  call or a failure of the call itself.
\<close>

datatype engine_error = Invalid ValidationError | Failed js_error

text \<open>
  Modelled from the spec: \<^verbatim>\<open>fetchPage\<close>, one round trip for a spec, absent from the sources.
  Validation errors are rejected before any network call; an accepted spec is posted with
  the \<^verbatim>\<open>searchTransactions\<close> of the sources.
\<close>

definition fetchPage ::
  "server \<Rightarrow> SearchTransactionsRpcRequest list \<Rightarrow> nat \<Rightarrow> SearchParams
     \<Rightarrow> (engine_error + jsval) \<times> SearchTransactionsRpcRequest list" where
  "fetchPage srv hist rid spec =
     (case validate spec of
        Inl e \<Rightarrow> (Inl (Invalid e), hist)
      | Inr spec' \<Rightarrow>
          (case searchTransactions srv hist
                  \<lparr> jsonrpc = ''2.0'', id_rpc = rid, method_rpc = ''searchTransactions'',
                    params = spec' \<rparr> of
             (Inl e, hist') \<Rightarrow> (Inl (Failed e), hist')
           | (Inr result, hist') \<Rightarrow> (Inr result, hist')))"

text \<open>The spec \<^verbatim>\<open>{}\<close>: every field absent.\<close>

definition emptySpec :: SearchParams where
  "emptySpec =
     \<lparr> accountInclude = None, accountExclude = None, accountRequired = None,
       fromBlock = None, toBlock = None, vote = None, failed = None, sort_p = None,
       paginationToken = JUndefined, limit = None, transactionDetails = None \<rparr>"

text \<open>
  Modelled from the spec: the invariant of the block range, both bounds present or both
  absent, and \<^verbatim>\<open>toBlock >= fromBlock\<close> when present.
\<close>

definition blockRangeOk :: "SearchParams \<Rightarrow> bool" where
  "blockRangeOk spec \<longleftrightarrow>
     (case (fromBlock spec, toBlock spec) of
        (None, None) \<Rightarrow> True
      | (Some f, Some t) \<Rightarrow> f \<le> t
      | _ \<Rightarrow> False)"

section \<open>The invariant of the pagination loop\<close>

text \<open>
  What holds of the run \<open>r\<close> of the loop entered with page count \<open>pc\<close>, token \<open>tok\<close> and
  the \<open>pc\<close> earlier requests \<open>hist\<close>: the next request is the one built from \<open>pc + 1\<close> and
  \<open>tok\<close>; every later request carries the non-null token of the reply before it; the
  number of requests is \<^verbatim>\<open>pageCount\<close>, at most 3 (one when the loop is entered at 3 or
  beyond); and a normal end before the third page has seen a \<^verbatim>\<open>null\<close> token.
\<close>

definition chain_inv ::
  "server \<Rightarrow> nat \<Rightarrow> jsval \<Rightarrow> SearchTransactionsRpcRequest list \<Rightarrow> run \<Rightarrow> bool" where
  "chain_inv srv pc tok hist r \<longleftrightarrow>
     take (Suc pc) (sent r) = hist @ [requestBody_of (Suc pc) tok] \<and>
     (\<forall>k. pc \<le> k \<and> Suc k < length (sent r) \<longrightarrow>
        (\<exists>t. returned_token (srv (take (Suc k) (sent r))) = Some t \<and> t \<noteq> JNull \<and>
             sent r ! Suc k = requestBody_of (Suc (Suc k)) t)) \<and>
     Suc pc \<le> length (sent r) \<and> length (sent r) \<le> max (Suc pc) 3 \<and>
     pages r = length (sent r) \<and>
     (thrown r = None \<and> length (sent r) < 3 \<longrightarrow> returned_token (srv (sent r)) = Some JNull)"

section \<open>Test data\<close>

text \<open>
  Scenario D of the specification: three pages of two records each, with the cursors
  \<^verbatim>\<open>"10:1"\<close>, \<^verbatim>\<open>"10:5"\<close> and \<^verbatim>\<open>null\<close>.
\<close>

definition pageA :: page where
  "pageA = \<lparr> records = [JStr ''sigA1'', JStr ''sigA2''], nextCursor = JStr ''10:1'' \<rparr>"

definition pageB :: page where
  "pageB = \<lparr> records = [JStr ''sigB1'', JStr ''sigB2''], nextCursor = JStr ''10:5'' \<rparr>"

definition pageC :: page where
  "pageC = \<lparr> records = [JStr ''sigC1'', JStr ''sigC2''], nextCursor = JNull \<rparr>"

definition scenarioD :: "page list" where
  "scenarioD = [pageA, pageB, pageC]"

text \<open>A session of four pages: the third page has a next cursor, the fourth ends it.\<close>

definition pageC' :: page where
  "pageC' = \<lparr> records = [JStr ''sigC1'', JStr ''sigC2''], nextCursor = JStr ''11:3'' \<rparr>"

definition pageD :: page where
  "pageD = \<lparr> records = [JStr ''sigD1''], nextCursor = JNull \<rparr>"

definition fourPages :: "page list" where
  "fourPages = [pageA, pageB, pageC', pageD]"

text \<open>A page of a sparse slot range: no record, and a next cursor.\<close>

definition sparsePage :: page where
  "sparsePage = \<lparr> records = [], nextCursor = JStr ''10:9'' \<rparr>"

text \<open>A page whose next cursor is a string without a colon, not of the documented format.\<close>

definition opaquePage :: page where
  "opaquePage = \<lparr> records = [JStr ''sigO1''], nextCursor = JStr ''opaque'' \<rparr>"

text \<open>A body with neither a \<^verbatim>\<open>result\<close> nor an \<^verbatim>\<open>error\<close> member.\<close>

definition malformedBody :: jsval where
  "malformedBody = JObj [(''jsonrpc'', JStr ''2.0''), (''id'', JNum 1)]"

text \<open>An index and a cursor for the default window (the token \<^verbatim>\<open>"394941095:1232"\<close>).\<close>

definition idx0 :: IndexedSlots where
  "idx0 = \<lparr> latestKnownSlot = 394941496, firstIndexedSlot = 1000 \<rparr>"

definition cursor0 :: Cursor where
  "cursor0 = \<lparr> slot = 394941095, transactionIndex = 1232 \<rparr>"

section \<open>One iteration of the loop\<close>

text \<open>
  The defining equation of the loop is unfolded by hand, one iteration at a time.
\<close>

declare pagination_loop.simps [simp del]

text \<open>Every call posts its request, whatever the parameters are: nothing is checked first.\<close>

lemma searchTransactions_posts:
  "snd (searchTransactions srv hist rq) = hist @ [rq]"
  by (simp add: searchTransactions_def Let_def split: reply.splits sum.splits)

lemma searchTransactions_page:
  "srv (hist @ [rq]) = page_reply p \<Longrightarrow>
   searchTransactions srv hist rq =
     (Inr (JObj [(''data'', JArr (records p)), (''paginationToken'', nextCursor p)]),
      hist @ [rq])"
  by (simp add: searchTransactions_def page_reply_def)

lemma searchTransactions_error:
  "srv (hist @ [rq]) = error_reply c m \<Longrightarrow>
   searchTransactions srv hist rq = (Inl (Error (JStr m)), hist @ [rq])"
  by (simp add: searchTransactions_def error_reply_def)

lemma loop_page_continue:
  assumes "srv (hist @ [requestBody_of (Suc pc) tok]) = page_reply p"
    and "Suc pc < 3" and "nextCursor p \<noteq> JNull"
  shows "pagination_loop srv hist acc tok pc =
         pagination_loop srv (hist @ [requestBody_of (Suc pc) tok]) (acc @ records p)
           (nextCursor p) (Suc pc)"
  using assms
  by (subst pagination_loop.simps) (simp add: searchTransactions_page)

lemma loop_page_stop:
  assumes "srv (hist @ [requestBody_of (Suc pc) tok]) = page_reply p"
    and "3 \<le> Suc pc \<or> nextCursor p = JNull"
  shows "pagination_loop srv hist acc tok pc =
         \<lparr> sent = hist @ [requestBody_of (Suc pc) tok], fetched = acc @ records p,
           pages = Suc pc, thrown = None \<rparr>"
  using assms
  by (subst pagination_loop.simps) (auto simp add: searchTransactions_page)

lemma loop_error:
  assumes "srv (hist @ [requestBody_of (Suc pc) tok]) = error_reply c m"
  shows "pagination_loop srv hist acc tok pc =
         \<lparr> sent = hist @ [requestBody_of (Suc pc) tok], fetched = acc,
           pages = Suc pc, thrown = Some (Error (JStr m)) \<rparr>"
  using assms
  by (subst pagination_loop.simps) (simp add: searchTransactions_error)

lemma loop_unfold:
  fixes srv hist acc tok pc
  defines "hist' \<equiv> hist @ [requestBody_of (Suc pc) tok]"
  defines "r \<equiv> pagination_loop srv hist acc tok pc"
  shows "(sent r = hist' \<and> pages r = Suc pc \<and>
           (Suc pc < 3 \<and> thrown r = None \<longrightarrow> returned_token (srv hist') = Some JNull))
         \<or> (Suc pc < 3 \<and>
             (\<exists>xs tok'. returned_token (srv hist') = Some tok' \<and> tok' \<noteq> JNull \<and>
                r = pagination_loop srv hist' (acc @ xs) tok' (Suc pc)))"
  unfolding r_def hist'_def
  apply (subst pagination_loop.simps)
  apply (subst (2) pagination_loop.simps)
  apply (subst (3) pagination_loop.simps)
  apply (subst (4) pagination_loop.simps)
  apply (auto simp add: searchTransactions_def returned_token_def Let_def
              split: reply.splits sum.splits)
  done

text \<open>The invariant holds of every run, by induction on the pages left before the cap.\<close>

lemma loop_chain:
  "length hist = pc \<Longrightarrow> chain_inv srv pc tok hist (pagination_loop srv hist acc tok pc)"
proof (induction "3 - pc" arbitrary: pc hist acc tok)
  case 0
  then have "\<not> Suc pc < 3" by simp
  with loop_unfold [of srv hist acc tok pc] 0 show ?case
    by (auto simp add: chain_inv_def)
next
  case (Suc n)
  let ?hist' = "hist @ [requestBody_of (Suc pc) tok]"
  let ?r = "pagination_loop srv hist acc tok pc"
  from loop_unfold [of srv hist acc tok pc]
  consider (stop) "sent ?r = ?hist'" "pages ?r = Suc pc"
      "Suc pc < 3 \<and> thrown ?r = None \<longrightarrow> returned_token (srv ?hist') = Some JNull"
    | (continue) xs tok' where "Suc pc < 3" "returned_token (srv ?hist') = Some tok'"
        "tok' \<noteq> JNull" "?r = pagination_loop srv ?hist' (acc @ xs) tok' (Suc pc)"
    by blast
  then show ?case
  proof cases
    case stop
    with Suc.prems show ?thesis by (auto simp add: chain_inv_def)
  next
    case continue
    have len: "length ?hist' = Suc pc" using Suc.prems by simp
    have "n = 3 - Suc pc" using Suc.hyps(2) by simp
    from Suc.hyps(1) [OF this len, of tok' "acc @ xs"] continue(4)
    have ih: "chain_inv srv (Suc pc) tok' ?hist' ?r" by simp
    then have tk: "take (Suc (Suc pc)) (sent ?r) = ?hist' @ [requestBody_of (Suc (Suc pc)) tok']"
      by (simp add: chain_inv_def)
    have "take (Suc pc) (sent ?r) = take (Suc pc) (take (Suc (Suc pc)) (sent ?r))"
      by simp
    also have "\<dots> = ?hist'" unfolding tk using len by simp
    finally have a: "take (Suc pc) (sent ?r) = ?hist'" .
    have "sent ?r ! Suc pc = take (Suc (Suc pc)) (sent ?r) ! Suc pc" by simp
    also have "\<dots> = requestBody_of (Suc (Suc pc)) tok'"
      unfolding tk using len by (simp add: nth_append)
    finally have b0: "sent ?r ! Suc pc = requestBody_of (Suc (Suc pc)) tok'" .
    have b: "\<exists>t. returned_token (srv (take (Suc k) (sent ?r))) = Some t \<and> t \<noteq> JNull \<and>
             sent ?r ! Suc k = requestBody_of (Suc (Suc k)) t"
      if "pc \<le> k" "Suc k < length (sent ?r)" for k
    proof (cases "k = pc")
      case True
      with a b0 continue show ?thesis by simp
    next
      case False
      with that have "Suc pc \<le> k" by simp
      with ih that show ?thesis unfolding chain_inv_def by blast
    qed
    from ih have c: "Suc pc \<le> length (sent ?r)" "length (sent ?r) \<le> max (Suc pc) 3"
      "pages ?r = length (sent ?r)"
      "thrown ?r = None \<and> length (sent ?r) < 3 \<longrightarrow> returned_token (srv (sent ?r)) = Some JNull"
      using continue(1) by (auto simp add: chain_inv_def)
    show ?thesis unfolding chain_inv_def using a b c by blast
  qed
qed

lemma fetchAll_chain:
  "chain_inv srv 0 JNull [] (fetchAllTransactionsWithPagination srv)"
  unfolding fetchAllTransactionsWithPagination_def by (rule loop_chain) simp

lemma page_of_page_reply: "page_of (page_reply p) = Some (records p, nextCursor p)"
  by (simp add: page_of_def page_reply_def)

text \<open>
  The loop goes on after every page with a non-null token, whatever the token is: it is
  stored and sent back, never looked into.
\<close>

lemma loop_page_of_continue:
  assumes "page_of (srv (hist @ [requestBody_of (Suc pc) tok])) = Some (xs, t)"
    and "Suc pc < 3" and "t \<noteq> JNull"
  shows "pagination_loop srv hist acc tok pc =
         pagination_loop srv (hist @ [requestBody_of (Suc pc) tok]) (acc @ xs) t (Suc pc)"
  using assms
  apply (subst pagination_loop.simps)
  apply (auto simp add: searchTransactions_def page_of_def Let_def
              split: reply.splits sum.splits if_splits)
  done

lemma loop_unfold_page:
  fixes srv hist acc tok pc
  defines "hist' \<equiv> hist @ [requestBody_of (Suc pc) tok]"
  defines "r \<equiv> pagination_loop srv hist acc tok pc"
  shows "(sent r = hist' \<and>
           (Suc pc < 3 \<longrightarrow> (\<forall>xs t. page_of (srv hist') = Some (xs, t) \<longrightarrow> t = JNull)))
         \<or> (Suc pc < 3 \<and>
             (\<exists>xs tok'. r = pagination_loop srv hist' (acc @ xs) tok' (Suc pc)))"
  unfolding r_def hist'_def
  apply (subst pagination_loop.simps)
  apply (subst (2) pagination_loop.simps)
  apply (auto simp add: searchTransactions_def page_of_def Let_def
              split: reply.splits sum.splits)
  done

text \<open>A run that ends before the third page has not seen a page with a non-null token.\<close>

lemma loop_last_reply:
  "length hist = pc \<Longrightarrow>
   length (sent (pagination_loop srv hist acc tok pc)) < 3 \<Longrightarrow>
   page_of (srv (sent (pagination_loop srv hist acc tok pc))) = Some (xs, t) \<Longrightarrow>
   t = JNull"
proof (induction "3 - pc" arbitrary: pc hist acc tok)
  case 0
  from loop_chain [OF 0(2), of srv tok acc]
  have "Suc pc \<le> length (sent (pagination_loop srv hist acc tok pc))"
    by (simp add: chain_inv_def)
  with 0 show ?case by simp
next
  case (Suc n)
  let ?hist' = "hist @ [requestBody_of (Suc pc) tok]"
  let ?r = "pagination_loop srv hist acc tok pc"
  from loop_unfold_page [of srv hist acc tok pc]
  consider (stop) "sent ?r = ?hist'"
      "Suc pc < 3 \<longrightarrow> (\<forall>xs t. page_of (srv ?hist') = Some (xs, t) \<longrightarrow> t = JNull)"
    | (continue) ys tok' where "Suc pc < 3"
        "?r = pagination_loop srv ?hist' (acc @ ys) tok' (Suc pc)"
    by blast
  then show ?case
  proof cases
    case stop
    from stop(1) Suc.prems(1,2) have "Suc pc < 3" by simp
    with stop Suc.prems(3) show ?thesis by simp
  next
    case continue
    have len: "length ?hist' = Suc pc" using Suc.prems(1) by simp
    have n: "n = 3 - Suc pc" using Suc.hyps(2) by simp
    from Suc.prems(2,3) continue(2)
    have "length (sent (pagination_loop srv ?hist' (acc @ ys) tok' (Suc pc))) < 3"
      "page_of (srv (sent (pagination_loop srv ?hist' (acc @ ys) tok' (Suc pc)))) = Some (xs, t)"
      by simp_all
    with Suc.hyps(1) [OF n len] show ?thesis by blast
  qed
qed

section \<open>Runs against a mock server\<close>

lemma mock_server_nth:
  "length hist = k \<Longrightarrow> k < length replies \<Longrightarrow>
   mock_server replies (hist @ [rq]) = replies ! k"
  by (simp add: mock_server_def)


lemma mock_loop_continue:
  assumes "length hist = pc" "pc < length replies" "replies ! pc = page_reply p"
    and "Suc pc < 3" "nextCursor p \<noteq> JNull"
  shows "pagination_loop (mock_server replies) hist acc tok pc =
         pagination_loop (mock_server replies) (hist @ [requestBody_of (Suc pc) tok])
           (acc @ records p) (nextCursor p) (Suc pc)"
proof -
  have "mock_server replies (hist @ [requestBody_of (Suc pc) tok]) = page_reply p"
    using assms(1-3) by (simp add: mock_server_nth)
  then show ?thesis using assms(4,5) by (rule loop_page_continue)
qed

lemma mock_loop_stop:
  assumes "length hist = pc" "pc < length replies" "replies ! pc = page_reply p"
    and "3 \<le> Suc pc \<or> nextCursor p = JNull"
  shows "pagination_loop (mock_server replies) hist acc tok pc =
         \<lparr> sent = hist @ [requestBody_of (Suc pc) tok], fetched = acc @ records p,
           pages = Suc pc, thrown = None \<rparr>"
proof -
  have "mock_server replies (hist @ [requestBody_of (Suc pc) tok]) = page_reply p"
    using assms(1-3) by (simp add: mock_server_nth)
  then show ?thesis using assms(4) by (rule loop_page_stop)
qed

lemma mock_loop_error:
  assumes "length hist = pc" "pc < length replies" "replies ! pc = error_reply c m"
  shows "pagination_loop (mock_server replies) hist acc tok pc =
         \<lparr> sent = hist @ [requestBody_of (Suc pc) tok], fetched = acc,
           pages = Suc pc, thrown = Some (Error (JStr m)) \<rparr>"
proof -
  have "mock_server replies (hist @ [requestBody_of (Suc pc) tok]) = error_reply c m"
    using assms by (simp add: mock_server_nth)
  then show ?thesis by (rule loop_error)
qed

text \<open>
  A prefix of pages with non-null cursors that ends before the third page is walked in
  order: the loop reaches the next iteration with their records collected and the last
  cursor as its token.
\<close>

lemma mock_loop_prefix:
  assumes "length hist = pc" "pc + length ps < 3" "pc + length ps \<le> length replies"
    and "\<forall>i < length ps. replies ! (pc + i) = page_reply (ps ! i)"
    and "\<forall>p \<in> set ps. nextCursor p \<noteq> JNull"
  shows "\<exists>hist'. length hist' = pc + length ps \<and>
           pagination_loop (mock_server replies) hist acc tok pc =
           pagination_loop (mock_server replies) hist' (acc @ concat (map records ps))
             (last (tok # map nextCursor ps)) (pc + length ps)"
  using assms
proof (induction ps arbitrary: hist acc tok pc)
  case Nil
  then show ?case by (intro exI [of _ hist]) simp
next
  case (Cons p ps)
  let ?hist1 = "hist @ [requestBody_of (Suc pc) tok]"
  have r0: "replies ! pc = page_reply p" using Cons.prems(4) by fastforce
  have step: "pagination_loop (mock_server replies) hist acc tok pc =
        pagination_loop (mock_server replies) ?hist1 (acc @ records p) (nextCursor p) (Suc pc)"
    using Cons.prems by (intro mock_loop_continue r0) simp_all
  have nth: "\<forall>i < length ps. replies ! (Suc pc + i) = page_reply (ps ! i)"
  proof (intro allI impI)
    fix i assume "i < length ps"
    then have "Suc i < length (p # ps)" by simp
    with Cons.prems(4) have "replies ! (pc + Suc i) = page_reply ((p # ps) ! Suc i)" by blast
    then show "replies ! (Suc pc + i) = page_reply (ps ! i)" by simp
  qed
  have "\<exists>hist'. length hist' = Suc pc + length ps \<and>
           pagination_loop (mock_server replies) ?hist1 (acc @ records p) (nextCursor p) (Suc pc) =
           pagination_loop (mock_server replies) hist' ((acc @ records p) @ concat (map records ps))
             (last (nextCursor p # map nextCursor ps)) (Suc pc + length ps)"
    using Cons.prems nth by (intro Cons.IH) simp_all
  then show ?case using step by simp
qed

section \<open>C1: what the pagination loop collects\<close>

text \<open>
  C1 states that for every finite trace of pages ending in a \<^verbatim>\<open>null\<close> next cursor the loop
  terminates and collects the concatenation of all pages' records. The loop is a total
  function (its termination is proved with its definition), but it stops after three
  pages: on the four-page trace \<open>fourPages\<close> the records of the fourth page are missing.
\<close>

lemma map_snoc_last: "xs \<noteq> [] \<Longrightarrow> map f xs = map f (butlast xs) @ [f (last xs)]"
  by (induction xs) auto

lemma concat_map_snoc_last:
  "xs \<noteq> [] \<Longrightarrow> concat (map f xs) = concat (map f (butlast xs)) @ f (last xs)"
  by (induction xs) auto

lemma fetchAll_prefix:
  assumes "length ps < 3" and "\<forall>p \<in> set ps. nextCursor p \<noteq> JNull"
  shows "\<exists>hist'. length hist' = length ps \<and>
           fetchAllTransactionsWithPagination (mock_server (map page_reply ps @ rest)) =
           pagination_loop (mock_server (map page_reply ps @ rest)) hist'
             (concat (map records ps)) (last (JNull # map nextCursor ps)) (length ps)"
proof -
  have "\<forall>i < length ps. (map page_reply ps @ rest) ! (0 + i) = page_reply (ps ! i)"
    by (simp add: nth_append)
  from mock_loop_prefix [OF _ _ _ this assms(2), of "[]" "[]" JNull] assms(1)
  show ?thesis by (simp add: fetchAllTransactionsWithPagination_def)
qed

lemma exhausting_short:
  assumes "exhausting ps" "length ps \<le> 3"
  defines "r \<equiv> fetchAllTransactionsWithPagination (mock_server (map page_reply ps))"
  shows "thrown r = None \<and> fetched r = concat (map records ps) \<and> length (sent r) = length ps"
proof -
  let ?qs = "butlast ps"
  from assms(1) have ne: "ps \<noteq> []" and nn: "\<forall>p \<in> set ?qs. nextCursor p \<noteq> JNull"
    and nl: "nextCursor (last ps) = JNull"
    by (simp_all add: exhausting_def)
  have split: "map page_reply ps = map page_reply ?qs @ [page_reply (last ps)]"
    using ne by (rule map_snoc_last)
  have len: "length ?qs < 3" using ne assms(2) by (cases ps) auto
  from fetchAll_prefix [OF len nn, of "[page_reply (last ps)]"] split
  obtain hist' where h: "length hist' = length ?qs"
    and eq: "r = pagination_loop (mock_server (map page_reply ps)) hist'
             (concat (map records ?qs)) (last (JNull # map nextCursor ?qs)) (length ?qs)"
    unfolding r_def by auto
  have nth: "map page_reply ps ! length ?qs = page_reply (last ps)"
    unfolding split by (simp add: nth_append)
  have lt: "length ?qs < length (map page_reply ps)" using ne by simp
  have "concat (map records ps) = concat (map records ?qs) @ records (last ps)"
    using ne by (rule concat_map_snoc_last)
  moreover have "length ps = Suc (length ?qs)" using ne by simp
  ultimately show ?thesis
    unfolding eq using mock_loop_stop [OF h lt nth, of _ _] nl h by simp
qed

lemma capped_long:
  assumes "exhausting ps" "3 < length ps"
  defines "r \<equiv> fetchAllTransactionsWithPagination (mock_server (map page_reply ps))"
  shows "thrown r = None \<and> fetched r = concat (map records (take 3 ps)) \<and> length (sent r) = 3"
proof -
  let ?qs = "take 2 ps"
  have "take 2 (butlast ps) = take 2 ps" using assms(2) by (simp add: take_butlast)
  then have "set ?qs \<subseteq> set (butlast ps)" by (metis set_take_subset)
  with assms(1) have nn: "\<forall>p \<in> set ?qs. nextCursor p \<noteq> JNull"
    by (auto simp add: exhausting_def)
  have len: "length ?qs = 2" using assms(2) by simp
  then have len3: "length ?qs < 3" by simp
  have split: "map page_reply ps = map page_reply ?qs @ map page_reply (drop 2 ps)"
    by (metis append_take_drop_id map_append)
  from fetchAll_prefix [OF len3 nn, of "map page_reply (drop 2 ps)"] split len
  obtain hist' where h: "length hist' = 2"
    and eq: "r = pagination_loop (mock_server (map page_reply ps)) hist'
             (concat (map records ?qs)) (last (JNull # map nextCursor ?qs)) 2"
    unfolding r_def by auto
  have nth: "map page_reply ps ! 2 = page_reply (ps ! 2)" using assms(2) by simp
  have lt: "2 < length (map page_reply ps)" using assms(2) by simp
  have "take 3 ps = ?qs @ [ps ! 2]"
    using assms(2) take_Suc_conv_app_nth [of 2 ps] by (simp add: numeral_3_eq_3)
  then have "concat (map records (take 3 ps)) = concat (map records ?qs) @ records (ps ! 2)"
    by simp
  then show ?thesis
    unfolding eq using mock_loop_stop [OF h lt nth, of _ _] h by simp
qed

text \<open>
  C1, amended: for every finite trace of pages that ends in a \<^verbatim>\<open>null\<close> next cursor, the run
  ends normally, it posts \<open>min 3 n\<close> requests for \<open>n\<close> pages, and it collects the records of
  the first three pages in the order of the server, each once; a trace of at most three
  pages is collected whole.
\<close>

theorem pagination_collects_first_three_pages:
  assumes "exhausting ps"
  defines "r \<equiv> fetchAllTransactionsWithPagination (mock_server (map page_reply ps))"
  shows "thrown r = None \<and>
         fetched r = concat (map records (take 3 ps)) \<and>
         length (sent r) = min 3 (length ps) \<and>
         (length ps \<le> 3 \<longrightarrow> fetched r = concat (map records ps))"
proof (cases "length ps \<le> 3")
  case True
  with exhausting_short [OF assms(1) True] show ?thesis by (simp add: r_def)
next
  case False
  then have "3 < length ps" by simp
  from capped_long [OF assms(1) this] False show ?thesis by (simp add: r_def)
qed

text \<open>Scenario D: three pages, six records, in page order.\<close>

lemma exhausting_scenarioD: "exhausting scenarioD"
  by (simp add: exhausting_def scenarioD_def pageA_def pageB_def pageC_def)

theorem pagination_collects_first_three_pages_witness:
  "exhausting scenarioD \<and>
   thrown (fetchAllTransactionsWithPagination (mock_server (map page_reply scenarioD))) = None \<and>
   fetched (fetchAllTransactionsWithPagination (mock_server (map page_reply scenarioD))) =
     [JStr ''sigA1'', JStr ''sigA2'', JStr ''sigB1'', JStr ''sigB2'', JStr ''sigC1'', JStr ''sigC2''] \<and>
   length (sent (fetchAllTransactionsWithPagination (mock_server (map page_reply scenarioD)))) = 3"
  using pagination_collects_first_three_pages [OF exhausting_scenarioD] exhausting_scenarioD
  by (simp add: scenarioD_def pageA_def pageB_def pageC_def)

text \<open>
  C1 as stated fails: \<open>fourPages\<close> ends in a \<^verbatim>\<open>null\<close> cursor, and the run does not collect
  the concatenation of its pages.
\<close>

theorem pagination_all_pages_counterexample:
  "exhausting fourPages \<and>
   fetched (fetchAllTransactionsWithPagination (mock_server (map page_reply fourPages))) \<noteq>
     concat (map records fourPages)"
proof -
  have e: "exhausting fourPages"
    by (simp add: exhausting_def fourPages_def pageA_def pageB_def pageC'_def pageD_def)
  have "fetched (fetchAllTransactionsWithPagination (mock_server (map page_reply fourPages))) =
        concat (map records (take 3 fourPages))"
    using capped_long [OF e] by (simp add: fourPages_def)
  then show ?thesis using e
    by (simp add: fourPages_def pageA_def pageB_def pageC'_def pageD_def)
qed

section \<open>C10: at least one request, at most three\<close>

text \<open>
  C10: whatever the server answers, \<^verbatim>\<open>fetchAllTransactionsWithPagination\<close> posts at least one
  request and at most three, and \<^verbatim>\<open>pageCount\<close> counts them. After the third page it leaves
  the loop whatever the returned token is: when the first two pages have non-null cursors,
  the run posts three requests, collects the records of the first three pages and ends
  normally, whatever the third cursor and the rest of the trace are.
\<close>

theorem at_most_three_requests:
  "1 \<le> length (sent (fetchAllTransactionsWithPagination srv)) \<and>
   length (sent (fetchAllTransactionsWithPagination srv)) \<le> 3 \<and>
   pages (fetchAllTransactionsWithPagination srv) =
     length (sent (fetchAllTransactionsWithPagination srv)) \<and>
   (nextCursor p1 \<noteq> JNull \<and> nextCursor p2 \<noteq> JNull \<longrightarrow>
      length (sent (fetchAllTransactionsWithPagination
        (mock_server (page_reply p1 # page_reply p2 # page_reply p3 # rest)))) = 3 \<and>
      fetched (fetchAllTransactionsWithPagination
        (mock_server (page_reply p1 # page_reply p2 # page_reply p3 # rest))) =
        records p1 @ records p2 @ records p3 \<and>
      thrown (fetchAllTransactionsWithPagination
        (mock_server (page_reply p1 # page_reply p2 # page_reply p3 # rest))) = None)"
proof -
  have bounds: "1 \<le> length (sent (fetchAllTransactionsWithPagination srv)) \<and>
        length (sent (fetchAllTransactionsWithPagination srv)) \<le> 3 \<and>
        pages (fetchAllTransactionsWithPagination srv) =
          length (sent (fetchAllTransactionsWithPagination srv))"
    using fetchAll_chain [of srv] by (simp add: chain_inv_def)
  have capped: "length (sent (fetchAllTransactionsWithPagination
        (mock_server (page_reply p1 # page_reply p2 # page_reply p3 # rest)))) = 3 \<and>
      fetched (fetchAllTransactionsWithPagination
        (mock_server (page_reply p1 # page_reply p2 # page_reply p3 # rest))) =
        records p1 @ records p2 @ records p3 \<and>
      thrown (fetchAllTransactionsWithPagination
        (mock_server (page_reply p1 # page_reply p2 # page_reply p3 # rest))) = None"
    if n: "nextCursor p1 \<noteq> JNull" "nextCursor p2 \<noteq> JNull"
  proof -
    let ?replies = "page_reply p1 # page_reply p2 # page_reply p3 # rest"
    have nn: "\<forall>p \<in> set [p1, p2]. nextCursor p \<noteq> JNull" using n by simp
    have "\<exists>hist'. length hist' = 2 \<and>
            fetchAllTransactionsWithPagination (mock_server ?replies) =
            pagination_loop (mock_server ?replies) hist'
              (records p1 @ records p2) (nextCursor p2) 2"
      using fetchAll_prefix [OF _ nn, of "page_reply p3 # rest"]
      by (simp add: numeral_2_eq_2)
    then obtain hist' where h: "length hist' = 2"
      and eq: "fetchAllTransactionsWithPagination (mock_server ?replies) =
               pagination_loop (mock_server ?replies) hist'
                 (records p1 @ records p2) (nextCursor p2) 2"
      by blast
    have nth: "?replies ! 2 = page_reply p3" by (simp add: numeral_2_eq_2)
    have lt: "2 < length ?replies" by simp
    show ?thesis
      unfolding eq using mock_loop_stop [OF h lt nth, of _ _] h by simp
  qed
  from bounds capped show ?thesis by blast
qed

text \<open>The four-page session: the third cursor is not null, and the fourth page is never asked for.\<close>

theorem at_most_three_requests_witness:
  "nextCursor pageA \<noteq> JNull \<and> nextCursor pageB \<noteq> JNull \<and> nextCursor pageC' \<noteq> JNull \<and>
   length (sent (fetchAllTransactionsWithPagination (mock_server (map page_reply fourPages)))) = 3 \<and>
   fetched (fetchAllTransactionsWithPagination (mock_server (map page_reply fourPages))) =
     [JStr ''sigA1'', JStr ''sigA2'', JStr ''sigB1'', JStr ''sigB2'', JStr ''sigC1'', JStr ''sigC2''] \<and>
   thrown (fetchAllTransactionsWithPagination (mock_server (map page_reply fourPages))) = None"
  using at_most_three_requests [of "mock_server (map page_reply fourPages)" pageA pageB pageC'
      "[page_reply pageD]"]
  by (simp add: fourPages_def pageA_def pageB_def pageC'_def)

section \<open>C3: the chain of pagination tokens\<close>

text \<open>
  C3: in every run, against every server, there is a first request and it carries the
  token \<^verbatim>\<open>null\<close> (the function takes no token from its caller); the \<open>k\<close>-th request has the id
  \<open>k\<close> and is the fixed request body with the token as its only varying parameter; the
  request for page \<open>k + 1\<close> carries exactly the value of \<^verbatim>\<open>result.paginationToken\<close> in the reply
  to the request for page \<open>k\<close>, whatever non-null value that is; a run that ends normally
  before the third page has seen the token \<^verbatim>\<open>null\<close>; and after every first or second page
  whose token is not \<^verbatim>\<open>null\<close>, whatever value the token is, the next request is posted with
  that token. The token is compared with \<^verbatim>\<open>null\<close> and echoed, nothing else: no page is
  skipped, and no token stops the run or changes on its way back.
\<close>

theorem token_chain:
  fixes srv
  defines "r \<equiv> fetchAllTransactionsWithPagination srv"
  shows "1 \<le> length (sent r) \<and>
         sent r ! 0 = requestBody_of 1 JNull \<and>
         (\<forall>k. k < length (sent r) \<longrightarrow>
            id_rpc (sent r ! k) = Suc k \<and>
            sent r ! k = requestBody_of (Suc k) (paginationToken (params (sent r ! k)))) \<and>
         (\<forall>k. Suc k < length (sent r) \<longrightarrow>
            returned_token (reply_to srv r k) \<noteq> Some JNull \<and>
            returned_token (reply_to srv r k) =
              Some (paginationToken (params (sent r ! Suc k)))) \<and>
         (thrown r = None \<and> length (sent r) < 3 \<longrightarrow>
            returned_token (reply_to srv r (length (sent r) - 1)) = Some JNull) \<and>
         (\<forall>k xs t. k < length (sent r) \<and> Suc k < 3 \<and>
            page_of (reply_to srv r k) = Some (xs, t) \<and> t \<noteq> JNull \<longrightarrow>
            Suc k < length (sent r) \<and> sent r ! Suc k = requestBody_of (Suc (Suc k)) t)"
proof -
  have inv: "chain_inv srv 0 JNull [] r" unfolding r_def by (rule fetchAll_chain)
  then have len: "1 \<le> length (sent r)" by (simp add: chain_inv_def)
  from inv have "take (Suc 0) (sent r) = [requestBody_of (Suc 0) JNull]"
    by (simp add: chain_inv_def)
  then have first: "sent r ! 0 = requestBody_of 1 JNull"
    by (metis One_nat_def less_Suc0 nth_Cons_0 nth_take)
  have later: "\<exists>t. returned_token (reply_to srv r k) = Some t \<and> t \<noteq> JNull \<and>
                 sent r ! Suc k = requestBody_of (Suc (Suc k)) t"
    if "Suc k < length (sent r)" for k
    using inv that unfolding chain_inv_def reply_to_def by blast
  have tok: "paginationToken (params (requestBody_of n t)) = t" for n t
    by (simp add: requestBody_of_def)
  have idr: "id_rpc (requestBody_of n t) = n" for n t
    by (simp add: requestBody_of_def)
  have shape: "id_rpc (sent r ! k) = Suc k \<and>
               sent r ! k = requestBody_of (Suc k) (paginationToken (params (sent r ! k)))"
    if "k < length (sent r)" for k
  proof (cases k)
    case 0
    with first show ?thesis by (simp add: tok idr)
  next
    case (Suc j)
    with that later [of j] show ?thesis by (auto simp add: tok idr)
  qed
  have chain: "returned_token (reply_to srv r k) \<noteq> Some JNull \<and>
               returned_token (reply_to srv r k) = Some (paginationToken (params (sent r ! Suc k)))"
    if "Suc k < length (sent r)" for k
    using later [OF that] by (auto simp add: tok)
  have stop: "returned_token (reply_to srv r (length (sent r) - 1)) = Some JNull"
    if "thrown r = None" "length (sent r) < 3"
  proof -
    have "take (Suc (length (sent r) - 1)) (sent r) = sent r" using len by simp
    with inv that show ?thesis by (simp add: chain_inv_def reply_to_def)
  qed
  have continues: "Suc k < length (sent r) \<and> sent r ! Suc k = requestBody_of (Suc (Suc k)) t"
    if k: "k < length (sent r)" "Suc k < 3" and p: "page_of (reply_to srv r k) = Some (xs, t)"
      and t: "t \<noteq> JNull" for k xs t
  proof -
    have rt: "returned_token (reply_to srv r k) = Some t"
      using p
      by (auto simp add: page_of_def returned_token_def split: reply.splits sum.splits if_splits)
    have next_exists: "Suc k < length (sent r)"
    proof (rule ccontr)
      assume "\<not> Suc k < length (sent r)"
      with k(1) have last: "length (sent r) = Suc k" by simp
      then have "reply_to srv r k = srv (sent r)" by (simp add: reply_to_def)
      with p have "page_of (srv (sent r)) = Some (xs, t)" by simp
      moreover have "length (sent r) < 3" using last k(2) by simp
      ultimately have "t = JNull"
        unfolding r_def fetchAllTransactionsWithPagination_def
        by (intro loop_last_reply [of "[]" 0 srv "[]" JNull xs t]) simp_all
      with t show False by simp
    qed
    with later [of k] rt show ?thesis by auto
  qed
  from len first shape chain stop continues show ?thesis by blast
qed

text \<open>
  Scenario D, a session of one page, and a session whose first cursor is the string
  \<^verbatim>\<open>"opaque"\<close>: the second request carries it as it is.
\<close>

lemma scenarioD_run:
  "fetchAllTransactionsWithPagination (mock_server (map page_reply scenarioD)) =
   \<lparr> sent = [requestBody_of 1 JNull, requestBody_of 2 (JStr ''10:1''),
              requestBody_of 3 (JStr ''10:5'')],
     fetched = [JStr ''sigA1'', JStr ''sigA2'', JStr ''sigB1'', JStr ''sigB2'',
                JStr ''sigC1'', JStr ''sigC2''],
     pages = 3, thrown = None \<rparr>"
  by code_simp

theorem token_chain_witness:
  "Suc 1 < length (sent (fetchAllTransactionsWithPagination (mock_server (map page_reply scenarioD)))) \<and>
   returned_token (reply_to (mock_server (map page_reply scenarioD))
      (fetchAllTransactionsWithPagination (mock_server (map page_reply scenarioD))) 0)
     = Some (JStr ''10:1'') \<and>
   returned_token (reply_to (mock_server (map page_reply scenarioD))
      (fetchAllTransactionsWithPagination (mock_server (map page_reply scenarioD))) 1)
     = Some (JStr ''10:5'') \<and>
   map (\<lambda>rq. (id_rpc rq, paginationToken (params rq)))
     (sent (fetchAllTransactionsWithPagination (mock_server (map page_reply scenarioD))))
     = [(1, JNull), (2, JStr ''10:1''), (3, JStr ''10:5'')] \<and>
   thrown (fetchAllTransactionsWithPagination (mock_server [page_reply pageC])) = None \<and>
   length (sent (fetchAllTransactionsWithPagination (mock_server [page_reply pageC]))) < 3 \<and>
   returned_token (reply_to (mock_server [page_reply pageC])
      (fetchAllTransactionsWithPagination (mock_server [page_reply pageC])) 0) = Some JNull \<and>
   page_of (reply_to (mock_server [page_reply opaquePage, page_reply pageC])
      (fetchAllTransactionsWithPagination (mock_server [page_reply opaquePage, page_reply pageC])) 0)
     = Some ([JStr ''sigO1''], JStr ''opaque'') \<and>
   JStr ''opaque'' \<noteq> JNull \<and>
   Suc 0 < length (sent (fetchAllTransactionsWithPagination
      (mock_server [page_reply opaquePage, page_reply pageC]))) \<and>
   sent (fetchAllTransactionsWithPagination
      (mock_server [page_reply opaquePage, page_reply pageC])) ! Suc 0
     = requestBody_of 2 (JStr ''opaque'')"
proof -
  let ?srvO = "mock_server [page_reply opaquePage, page_reply pageC]"
  let ?rO = "fetchAllTransactionsWithPagination ?srvO"
  note cO = token_chain [of ?srvO]
  from cO have lenO: "1 \<le> length (sent ?rO)" and firstO: "sent ?rO ! 0 = requestBody_of 1 JNull"
    by blast+
  from lenO have "take (Suc 0) (sent ?rO) = [sent ?rO ! 0]"
    by (cases "sent ?rO") simp_all
  with firstO have "reply_to ?srvO ?rO 0 = ?srvO [requestBody_of 1 JNull]"
    by (simp add: reply_to_def)
  also have "\<dots> = page_reply opaquePage" by (simp add: mock_server_def)
  finally have pO: "page_of (reply_to ?srvO ?rO 0) = Some ([JStr ''sigO1''], JStr ''opaque'')"
    by (simp add: page_of_page_reply opaquePage_def)
  have hO: "0 < length (sent ?rO) \<and> Suc 0 < 3 \<and>
            page_of (reply_to ?srvO ?rO 0) = Some ([JStr ''sigO1''], JStr ''opaque'') \<and>
            JStr ''opaque'' \<noteq> JNull"
    using lenO pO by (cases "sent ?rO") simp_all
  with cO have nextO: "Suc 0 < length (sent ?rO) \<and>
                       sent ?rO ! Suc 0 = requestBody_of (Suc (Suc 0)) (JStr ''opaque'')"
    by blast
  let ?srv1 = "mock_server [page_reply pageC]"
  let ?r1 = "fetchAllTransactionsWithPagination ?srv1"
  have run1: "?r1 = \<lparr> sent = [requestBody_of 1 JNull],
                     fetched = [JStr ''sigC1'', JStr ''sigC2''], pages = 1, thrown = None \<rparr>"
    by code_simp
  then have e: "thrown ?r1 = None \<and> length (sent ?r1) < 3" by simp
  with token_chain [of ?srv1]
  have "returned_token (reply_to ?srv1 ?r1 (length (sent ?r1) - 1)) = Some JNull" by blast
  then have last1: "returned_token (reply_to ?srv1 ?r1 0) = Some JNull" by (simp add: run1)
  let ?srv = "mock_server (map page_reply scenarioD)"
  let ?r = "fetchAllTransactionsWithPagination ?srv"
  have len: "length (sent ?r) = 3" by (simp add: scenarioD_run)
  have t: "paginationToken (params (requestBody_of n t)) = t" for n t
    by (simp add: requestBody_of_def)
  have k0: "Suc 0 < length (sent ?r)" and k1: "Suc 1 < length (sent ?r)" using len by simp_all
  note c = token_chain [of ?srv]
  from c k0 have a: "returned_token (reply_to ?srv ?r 0) = Some (paginationToken (params (sent ?r ! Suc 0)))"
    by blast
  from c k1 have b: "returned_token (reply_to ?srv ?r 1) = Some (paginationToken (params (sent ?r ! Suc 1)))"
    by blast
  have "sent ?r ! Suc 0 = requestBody_of 2 (JStr ''10:1'')" "sent ?r ! Suc 1 = requestBody_of 3 (JStr ''10:5'')"
    by (simp_all add: scenarioD_run)
  with a b k1 e last1 pO nextO show ?thesis
    by (simp add: scenarioD_run t requestBody_of_def numeral_2_eq_2)
qed

section \<open>C4: an RPC error on a page\<close>

text \<open>
  C4, amended: if one of the first three pages of a session is an RPC error (the pages
  before it having non-null cursors), the run posts no request after it, the array
  \<^verbatim>\<open>allTransactions\<close> holds exactly the records of the pages before it when the exception
  leaves the function, and the exception is the \<^verbatim>\<open>Error\<close> built from the message of the RPC
  error: the run does not end normally.
\<close>

theorem error_page_raises_before_cap:
  fixes code message rest
  assumes "length ps < 3" and "\<forall>p \<in> set ps. nextCursor p \<noteq> JNull"
  defines "r \<equiv> fetchAllTransactionsWithPagination
                  (mock_server (map page_reply ps @ error_reply code message # rest))"
  shows "thrown r = Some (Error (JStr message)) \<and>
         fetched r = concat (map records ps) \<and>
         length (sent r) = Suc (length ps) \<and>
         pages r = Suc (length ps)"
proof -
  let ?replies = "map page_reply ps @ error_reply code message # rest"
  from fetchAll_prefix [OF assms(1,2), of "error_reply code message # rest"]
  obtain hist' where h: "length hist' = length ps"
    and eq: "r = pagination_loop (mock_server ?replies) hist'
             (concat (map records ps)) (last (JNull # map nextCursor ps)) (length ps)"
    unfolding r_def by blast
  have nth: "?replies ! length ps = error_reply code message"
    by (simp add: nth_append)
  have lt: "length ps < length ?replies" by simp
  show ?thesis
    unfolding eq using mock_loop_error [OF h lt nth, of _ _] h by simp
qed

text \<open>Page 3 of 5 is an RPC error: the records of pages 1 and 2, three requests, the error.\<close>

theorem error_page_raises_before_cap_witness:
  "length [pageA, pageB] < 3 \<and> nextCursor pageA \<noteq> JNull \<and> nextCursor pageB \<noteq> JNull \<and>
   thrown (fetchAllTransactionsWithPagination
     (mock_server [page_reply pageA, page_reply pageB, error_reply 429 ''Rate limit exceeded'',
                   page_reply pageC', page_reply pageD])) =
     Some (Error (JStr ''Rate limit exceeded'')) \<and>
   fetched (fetchAllTransactionsWithPagination
     (mock_server [page_reply pageA, page_reply pageB, error_reply 429 ''Rate limit exceeded'',
                   page_reply pageC', page_reply pageD])) =
     [JStr ''sigA1'', JStr ''sigA2'', JStr ''sigB1'', JStr ''sigB2''] \<and>
   length (sent (fetchAllTransactionsWithPagination
     (mock_server [page_reply pageA, page_reply pageB, error_reply 429 ''Rate limit exceeded'',
                   page_reply pageC', page_reply pageD]))) = 3"
  using error_page_raises_before_cap [where ps = "[pageA, pageB]" and code = 429
      and message = "''Rate limit exceeded''" and rest = "[page_reply pageC', page_reply pageD]"]
  by (simp add: pageA_def pageB_def)

text \<open>
  C4 as stated fails for a page past the cap: here page 4 is an RPC error, and the run ends
  normally after three requests, raising nothing.
\<close>

theorem error_on_fourth_page_counterexample:
  "thrown (fetchAllTransactionsWithPagination
     (mock_server [page_reply pageA, page_reply pageB, page_reply pageC',
                   error_reply 429 ''Rate limit exceeded''])) = None \<and>
   length (sent (fetchAllTransactionsWithPagination
     (mock_server [page_reply pageA, page_reply pageB, page_reply pageC',
                   error_reply 429 ''Rate limit exceeded'']))) = 3"
  by code_simp

section \<open>C8: a page without records\<close>

text \<open>
  C8, amended: a first or second page with an empty record list and a non-null next cursor
  (the pages before it having non-null cursors) does not end the iteration: the next
  request is posted, with that cursor as its token.
\<close>

theorem empty_page_continues_before_cap:
  fixes t rest
  assumes "length ps < 2" and "\<forall>p \<in> set ps. nextCursor p \<noteq> JNull" and "t \<noteq> JNull"
  defines "r \<equiv> fetchAllTransactionsWithPagination
                  (mock_server (map page_reply ps @
                                page_reply \<lparr> records = [], nextCursor = t \<rparr> # rest))"
  shows "length ps + 2 \<le> length (sent r) \<and>
         sent r ! Suc (length ps) = requestBody_of (length ps + 2) t"
proof -
  let ?e = "\<lparr> records = [], nextCursor = t \<rparr>"
  let ?qs = "ps @ [?e]"
  let ?replies = "map page_reply ps @ page_reply ?e # rest"
  have rep: "?replies = map page_reply ?qs @ rest" by simp
  have len: "length ?qs < 3" using assms(1) by simp
  have nn: "\<forall>p \<in> set ?qs. nextCursor p \<noteq> JNull" using assms(2,3) by simp
  from fetchAll_prefix [OF len nn, of rest]
  obtain hist' where h: "length hist' = Suc (length ps)"
    and eq: "r = pagination_loop (mock_server ?replies) hist'
             (concat (map records ?qs)) (last (JNull # map nextCursor ?qs)) (Suc (length ps))"
    unfolding r_def rep by auto
  have tk: "last (JNull # map nextCursor ?qs) = t" by simp
  from loop_chain [OF h, of "mock_server ?replies" t "concat (map records ?qs)"]
  have inv: "chain_inv (mock_server ?replies) (Suc (length ps)) t hist' r"
    unfolding eq tk .
  then have a: "take (Suc (Suc (length ps))) (sent r) = hist' @ [requestBody_of (Suc (Suc (length ps))) t]"
    and b: "Suc (Suc (length ps)) \<le> length (sent r)"
    by (simp_all add: chain_inv_def)
  have "sent r ! Suc (length ps) = take (Suc (Suc (length ps))) (sent r) ! Suc (length ps)"
    by simp
  also have "\<dots> = requestBody_of (Suc (Suc (length ps))) t"
    unfolding a using h by (simp add: nth_append)
  finally show ?thesis using b by simp
qed

text \<open>The second page is empty with the cursor \<^verbatim>\<open>"10:9"\<close>: the third request carries it.\<close>

theorem empty_page_continues_before_cap_witness:
  "length [pageA] < 2 \<and> nextCursor pageA \<noteq> JNull \<and> JStr ''10:9'' \<noteq> JNull \<and>
   3 \<le> length (sent (fetchAllTransactionsWithPagination
          (mock_server [page_reply pageA, page_reply sparsePage, page_reply pageC]))) \<and>
   sent (fetchAllTransactionsWithPagination
          (mock_server [page_reply pageA, page_reply sparsePage, page_reply pageC])) ! 2
     = requestBody_of 3 (JStr ''10:9'')"
  using empty_page_continues_before_cap [where ps = "[pageA]" and t = "JStr ''10:9''"
      and rest = "[page_reply pageC]"]
  by (simp add: pageA_def sparsePage_def numeral_2_eq_2 numeral_3_eq_3)

text \<open>
  C8 as stated fails on the third page: it is empty, its cursor is not null, and the run
  ends there, without a fourth request.
\<close>

theorem empty_third_page_counterexample:
  "records sparsePage = [] \<and> nextCursor sparsePage \<noteq> JNull \<and>
   fetchAllTransactionsWithPagination
     (mock_server [page_reply pageA, page_reply pageB, page_reply sparsePage, page_reply pageD]) =
   \<lparr> sent = [requestBody_of 1 JNull, requestBody_of 2 (JStr ''10:1''),
              requestBody_of 3 (JStr ''10:5'')],
     fetched = [JStr ''sigA1'', JStr ''sigA2'', JStr ''sigB1'', JStr ''sigB2''],
     pages = 3, thrown = None \<rparr>"
  by code_simp

section \<open>C9: a response with neither \<^verbatim>\<open>result\<close> nor \<^verbatim>\<open>error\<close>\<close>

text \<open>
  C9, amended: for a response body that is a JSON object with neither an \<^verbatim>\<open>error\<close> nor a
  \<^verbatim>\<open>result\<close> member,
  \<^verbatim>\<open>searchTransactions\<close> raises nothing and returns \<^verbatim>\<open>undefined\<close>; the pagination loop then
  fails with the \<^verbatim>\<open>TypeError\<close> of reading \<^verbatim>\<open>result.data\<close>, keeping what it had collected, so
  that the response is not taken for the end of the pages.
\<close>

theorem malformed_response_is_returned:
  assumes "map_of kvs ''error'' = None" and "map_of kvs ''result'' = None"
    and "srv (hist @ [requestBody_of (Suc pc) tok]) = Resolved (JObj kvs)"
  shows "searchTransactions srv hist (requestBody_of (Suc pc) tok) =
           (Inr JUndefined, hist @ [requestBody_of (Suc pc) tok]) \<and>
         pagination_loop srv hist acc tok pc =
           \<lparr> sent = hist @ [requestBody_of (Suc pc) tok], fetched = acc,
             pages = Suc pc, thrown = Some TypeError \<rparr>"
proof -
  have s: "searchTransactions srv hist (requestBody_of (Suc pc) tok) =
           (Inr JUndefined, hist @ [requestBody_of (Suc pc) tok])"
    using assms by (simp add: searchTransactions_def)
  then show ?thesis by (subst pagination_loop.simps) simp
qed

text \<open>A first reply that holds \<^verbatim>\<open>jsonrpc\<close> and \<^verbatim>\<open>id\<close> only.\<close>

theorem malformed_response_is_returned_witness:
  "map_of [(''jsonrpc'', JStr ''2.0''), (''id'', JNum 1)] ''error'' = None \<and>
   map_of [(''jsonrpc'', JStr ''2.0''), (''id'', JNum 1)] ''result'' = None \<and>
   fetchAllTransactionsWithPagination (mock_server [Resolved malformedBody]) =
     \<lparr> sent = [requestBody_of 1 JNull], fetched = [], pages = 1, thrown = Some TypeError \<rparr>"
proof -
  have e: "map_of [(''jsonrpc'', JStr ''2.0''), (''id'', JNum 1)] ''error'' = None"
    and r: "map_of [(''jsonrpc'', JStr ''2.0''), (''id'', JNum 1)] ''result'' = None"
    by simp_all
  have s: "mock_server [Resolved malformedBody] ([] @ [requestBody_of (Suc 0) JNull]) =
           Resolved (JObj [(''jsonrpc'', JStr ''2.0''), (''id'', JNum 1)])"
    by (simp add: mock_server_def malformedBody_def)
  from malformed_response_is_returned [where srv = "mock_server [Resolved malformedBody]"
      and hist = "[]" and pc = 0 and tok = JNull and acc = "[]", OF e r s] e r
  show ?thesis
    by (simp add: fetchAllTransactionsWithPagination_def)
qed

text \<open>
  C9 as stated fails: for that reply \<^verbatim>\<open>searchTransactions\<close> returns normally, with the value
  \<^verbatim>\<open>undefined\<close>, and raises no error.
\<close>

theorem malformed_response_counterexample:
  "searchTransactions (mock_server [Resolved malformedBody]) [] (requestBody_of 1 JNull) =
     (Inr JUndefined, [requestBody_of 1 JNull])"
  by (simp add: searchTransactions_def mock_server_def malformedBody_def)

section \<open>C2: the default block window\<close>

text \<open>
  C2: \<^verbatim>\<open>resolveDefaultWindow\<close> is a function of the index, the spec and the cursor, and it
  returns the window of the four-row table: without a cursor, \<open>[latest - 5000, latest]\<close> for
  DESC and \<open>[first, first + 5000]\<close> for ASC; with a cursor, \<open>[slot - 5000, slot]\<close> for DESC and
  \<open>[slot, slot + 5000]\<close> for ASC. The window of a request is taken from it only when both
  bounds are absent: a valid spec with both bounds has these bounds as its window,
  whatever the index and the cursor are.
\<close>

theorem default_window_table:
  "(effectiveSort spec = DESC \<longrightarrow>
      resolveDefaultWindow idx spec None = (latestKnownSlot idx - 5000, latestKnownSlot idx)) \<and>
   (effectiveSort spec = ASC \<longrightarrow>
      resolveDefaultWindow idx spec None = (firstIndexedSlot idx, firstIndexedSlot idx + 5000)) \<and>
   (effectiveSort spec = DESC \<longrightarrow>
      resolveDefaultWindow idx spec (Some c) = (slot c - 5000, slot c)) \<and>
   (effectiveSort spec = ASC \<longrightarrow>
      resolveDefaultWindow idx spec (Some c) = (slot c, slot c + 5000)) \<and>
   (fromBlock spec = None \<and> toBlock spec = None \<and> validate spec = Inr spec \<longrightarrow>
      effectiveWindow idx spec cur = Inr (resolveDefaultWindow idx spec cur)) \<and>
   (fromBlock spec = Some f \<and> toBlock spec = Some t \<and> validate spec = Inr spec \<longrightarrow>
      effectiveWindow idx spec cur = Inr (f, t))"
  by (simp add: resolveDefaultWindow_def effectiveWindow_def Let_def)

text \<open>The four rows and the two uses, at an index and a cursor.\<close>

lemma validate_emptySpec: "validate emptySpec = Inr emptySpec"
  by (simp add: validate_def emptySpec_def)

theorem default_window_table_witness:
  "effectiveSort emptySpec = DESC \<and>
   resolveDefaultWindow idx0 emptySpec None = (394936496, 394941496) \<and>
   resolveDefaultWindow idx0 emptySpec (Some cursor0) = (394936095, 394941095) \<and>
   effectiveSort (emptySpec\<lparr>sort_p := Some ASC\<rparr>) = ASC \<and>
   resolveDefaultWindow idx0 (emptySpec\<lparr>sort_p := Some ASC\<rparr>) None = (1000, 6000) \<and>
   resolveDefaultWindow idx0 (emptySpec\<lparr>sort_p := Some ASC\<rparr>) (Some cursor0)
     = (394941095, 394946095) \<and>
   effectiveWindow idx0 emptySpec (Some cursor0) = Inr (394936095, 394941095) \<and>
   effectiveWindow idx0 (emptySpec\<lparr>fromBlock := Some 100, toBlock := Some 100\<rparr>) (Some cursor0)
     = Inr (100, 100)"
proof -
  have d: "effectiveSort emptySpec = DESC" by (simp add: effectiveSort_def emptySpec_def)
  have a: "effectiveSort (emptySpec\<lparr>sort_p := Some ASC\<rparr>) = ASC"
    by (simp add: effectiveSort_def)
  have v: "validate (emptySpec\<lparr>fromBlock := Some 100, toBlock := Some 100\<rparr>) =
           Inr (emptySpec\<lparr>fromBlock := Some 100, toBlock := Some 100\<rparr>)"
    by (simp add: validate_def emptySpec_def)
  have n: "fromBlock emptySpec = None" "toBlock emptySpec = None" by (simp_all add: emptySpec_def)
  note t1 = default_window_table [of emptySpec idx0 cursor0 "Some cursor0" 0 0]
  note t2 = default_window_table [of "emptySpec\<lparr>sort_p := Some ASC\<rparr>" idx0 cursor0 None 0 0]
  note t3 = default_window_table
    [of "emptySpec\<lparr>fromBlock := Some 100, toBlock := Some 100\<rparr>" idx0 cursor0 "Some cursor0" 100 100]
  from t1 d n validate_emptySpec
  have "resolveDefaultWindow idx0 emptySpec None = (394936496, 394941496)"
    "resolveDefaultWindow idx0 emptySpec (Some cursor0) = (394936095, 394941095)"
    "effectiveWindow idx0 emptySpec (Some cursor0) = Inr (394936095, 394941095)"
    by (simp_all add: idx0_def cursor0_def)
  moreover from t2 a
  have "resolveDefaultWindow idx0 (emptySpec\<lparr>sort_p := Some ASC\<rparr>) None = (1000, 6000)"
    "resolveDefaultWindow idx0 (emptySpec\<lparr>sort_p := Some ASC\<rparr>) (Some cursor0)
      = (394941095, 394946095)"
    by (simp_all add: idx0_def cursor0_def)
  moreover from t3 v
  have "effectiveWindow idx0 (emptySpec\<lparr>fromBlock := Some 100, toBlock := Some 100\<rparr>) (Some cursor0)
     = Inr (100, 100)"
    by simp
  ultimately show ?thesis using d a by simp
qed

section \<open>C5: one block bound without the other\<close>

text \<open>
  C5: for every spec in which exactly one of \<^verbatim>\<open>fromBlock\<close> and \<^verbatim>\<open>toBlock\<close> is set, \<^verbatim>\<open>validate\<close>
  returns \<open>UnpairedBlockRange\<close>, whatever the other fields hold, and \<^verbatim>\<open>fetchPage\<close> rejects the
  spec with that error without posting a request: the list of requests is unchanged.
\<close>

theorem unpaired_block_range_rejected:
  assumes "(fromBlock spec = None) \<noteq> (toBlock spec = None)"
  shows "validate spec = Inl UnpairedBlockRange \<and>
         fetchPage srv hist rid spec = (Inl (Invalid UnpairedBlockRange), hist)"
  using assms by (simp add: validate_def fetchPage_def)

text \<open>Scenario C: the spec \<^verbatim>\<open>{fromBlock: 100}\<close>.\<close>

theorem unpaired_block_range_rejected_witness:
  "(fromBlock (emptySpec\<lparr>fromBlock := Some 100\<rparr>) = None) \<noteq>
     (toBlock (emptySpec\<lparr>fromBlock := Some 100\<rparr>) = None) \<and>
   validate (emptySpec\<lparr>fromBlock := Some 100\<rparr>) = Inl UnpairedBlockRange \<and>
   fetchPage (mock_server [page_reply pageA]) [] 1 (emptySpec\<lparr>fromBlock := Some 100\<rparr>) =
     (Inl (Invalid UnpairedBlockRange), [])"
proof -
  have h: "(fromBlock (emptySpec\<lparr>fromBlock := Some 100\<rparr>) = None) \<noteq>
     (toBlock (emptySpec\<lparr>fromBlock := Some 100\<rparr>) = None)"
    by (simp add: emptySpec_def)
  from unpaired_block_range_rejected [OF h, of "mock_server [page_reply pageA]" "[]" 1] h
  show ?thesis by simp
qed

section \<open>C6: the cap of \<^verbatim>\<open>limit\<close>\<close>

text \<open>
  C6: the cap is 1000 for Signatures and 100 for Full. A spec whose block range passes
  and whose \<^verbatim>\<open>limit\<close> lies between 1 and the cap of its detail level is accepted. A
  \<^verbatim>\<open>limit\<close> above the cap is always rejected, and the error is \<open>LimitExceeded\<close> when the block
  range passes (the block range is checked first). An absent \<^verbatim>\<open>limit\<close> defaults to the cap:
  1000 for Signatures, 100 for Full. Nothing is clamped: an accepted spec is returned as
  it is.
\<close>

theorem limit_caps:
  "limitCap Signatures = 1000 \<and> limitCap Full = 100 \<and>
   (blockRangeOk spec \<and> limit spec = Some n \<and> 1 \<le> n \<and>
      n \<le> limitCap (effectiveDetailLevel spec) \<longrightarrow> validate spec = Inr spec) \<and>
   (limit spec = Some n \<and> n > limitCap (effectiveDetailLevel spec) \<longrightarrow>
      (\<exists>e. validate spec = Inl e) \<and>
      (blockRangeOk spec \<longrightarrow> validate spec = Inl LimitExceeded)) \<and>
   (limit spec = None \<longrightarrow>
      effectiveLimit spec = limitCap (effectiveDetailLevel spec) \<and>
      (blockRangeOk spec \<longrightarrow> validate spec = Inr spec)) \<and>
   (validate spec = Inr spec' \<longrightarrow> spec' = spec)"
  by (auto simp add: validate_def blockRangeOk_def effectiveLimit_def
           split: option.splits if_splits)

text \<open>The four boundary values, and the two defaults.\<close>

theorem limit_caps_witness:
  "validate (emptySpec\<lparr>limit := Some 1000\<rparr>) = Inr (emptySpec\<lparr>limit := Some 1000\<rparr>) \<and>
   validate (emptySpec\<lparr>limit := Some 1001\<rparr>) = Inl LimitExceeded \<and>
   validate (emptySpec\<lparr>transactionDetails := Some Full, limit := Some 100\<rparr>) =
     Inr (emptySpec\<lparr>transactionDetails := Some Full, limit := Some 100\<rparr>) \<and>
   validate (emptySpec\<lparr>transactionDetails := Some Full, limit := Some 101\<rparr>) =
     Inl LimitExceeded \<and>
   effectiveLimit emptySpec = 1000 \<and>
   effectiveLimit (emptySpec\<lparr>transactionDetails := Some Full\<rparr>) = 100 \<and>
   validate emptySpec = Inr emptySpec"
proof -
  let ?full = "emptySpec\<lparr>transactionDetails := Some Full\<rparr>"
  have ok: "blockRangeOk (emptySpec\<lparr>limit := l\<rparr>)" "blockRangeOk (?full\<lparr>limit := l\<rparr>)"
    "blockRangeOk emptySpec" "blockRangeOk ?full" for l
    by (simp_all add: blockRangeOk_def emptySpec_def)
  have sg: "effectiveDetailLevel (emptySpec\<lparr>limit := l\<rparr>) = Signatures"
    "effectiveDetailLevel emptySpec = Signatures" for l
    by (simp_all add: effectiveDetailLevel_def emptySpec_def)
  have fl: "effectiveDetailLevel (?full\<lparr>limit := l\<rparr>) = Full"
    "effectiveDetailLevel ?full = Full" for l
    by (simp_all add: effectiveDetailLevel_def)
  have n: "limit emptySpec = None" "limit ?full = None" by (simp_all add: emptySpec_def)
  from limit_caps [of "emptySpec\<lparr>limit := Some 1000\<rparr>" 1000 emptySpec] ok sg
  have 1: "validate (emptySpec\<lparr>limit := Some 1000\<rparr>) = Inr (emptySpec\<lparr>limit := Some 1000\<rparr>)"
    by simp
  from limit_caps [of "emptySpec\<lparr>limit := Some 1001\<rparr>" 1001 emptySpec] ok sg
  have 2: "validate (emptySpec\<lparr>limit := Some 1001\<rparr>) = Inl LimitExceeded"
    by simp
  from limit_caps [of "?full\<lparr>limit := Some 100\<rparr>" 100 emptySpec] ok fl
  have 3: "validate (?full\<lparr>limit := Some 100\<rparr>) = Inr (?full\<lparr>limit := Some 100\<rparr>)"
    by simp
  from limit_caps [of "?full\<lparr>limit := Some 101\<rparr>" 101 emptySpec] ok fl
  have 4: "validate (?full\<lparr>limit := Some 101\<rparr>) = Inl LimitExceeded"
    by simp
  from limit_caps [of emptySpec 0 emptySpec] n sg
  have 5: "effectiveLimit emptySpec = 1000" by simp
  from limit_caps [of ?full 0 emptySpec] n fl
  have 6: "effectiveLimit ?full = 100" by simp
  from limit_caps [of emptySpec 0 emptySpec] n ok
  have 7: "validate emptySpec = Inr emptySpec" by simp
  from 1 2 3 4 5 6 7 show ?thesis by simp
qed

section \<open>C7: the empty spec\<close>

text \<open>
  C7: the spec \<^verbatim>\<open>{}\<close> is valid, its detail level is Signatures, its limit 1000, its order
  DESC, and its window without a cursor is \<open>[latestKnownSlot - 5000, latestKnownSlot]\<close>.
\<close>

theorem empty_spec_defaults:
  "validate emptySpec = Inr emptySpec \<and>
   effectiveDetailLevel emptySpec = Signatures \<and>
   effectiveLimit emptySpec = 1000 \<and>
   effectiveSort emptySpec = DESC \<and>
   effectiveWindow idx emptySpec None =
     Inr (latestKnownSlot idx - 5000, latestKnownSlot idx)"
  by (simp add: validate_def emptySpec_def effectiveDetailLevel_def effectiveLimit_def
        effectiveSort_def effectiveWindow_def resolveDefaultWindow_def Let_def)

text \<open>With the latest slot 394941496.\<close>

theorem empty_spec_defaults_witness:
  "effectiveWindow idx0 emptySpec None = Inr (394936496, 394941496)"
  using empty_spec_defaults [of idx0] by (simp add: idx0_def)

end
